theory Spec2Isabelle
  imports Main "HOL-Library.Word"
begin

unbundle bit_operations_syntax

section \<open>Constants of zivyobraz.py\<close>

definition DEFAULT_SLEEP_TIME :: int where
  "DEFAULT_SLEEP_TIME = 120"

definition DISPLAY_WIDTH :: nat where
  "DISPLAY_WIDTH = 800"

definition DISPLAY_HEIGHT :: nat where
  "DISPLAY_HEIGHT = 480"

definition COLOR_WHITE :: nat where
  "COLOR_WHITE = 255"

definition COLOR_BLACK :: nat where
  "COLOR_BLACK = 0"

section \<open>The update poller: \<open>ZivyObrazClient.check_for_update\<close>\<close>

text \<open>
  The three fields of \<open>ZivyObrazClient\<close> that \<open>check_for_update\<close> reads and writes,
  with the values \<open>__init__\<close> gives them.
\<close>

record client =
  timestamp :: int
  sleep_time :: int
  rotation :: int

definition init_client :: client where
  "init_client = \<lparr>timestamp = 0, sleep_time = DEFAULT_SLEEP_TIME, rotation = 0\<rparr>"

text \<open>
  What \<open>requests.get\<close> gives: a response with a status code and its headers in
  iteration order (name, value), or a \<open>requests.RequestException\<close> (time-out, connection
  error), the only exception the method catches.
\<close>

datatype reply =
  RequestException
| Response int "(string \<times> string) list"

text \<open>
  The one exception that leaves the method: \<open>int(value)\<close> on a header value that is not
  an integer literal raises \<open>ValueError\<close>, which \<open>except requests.RequestException\<close> does
  not catch.
\<close>

datatype exn = ValueError

text \<open>
  \<open>str.lower\<close> on a header name. The names come from the HTTP layer decoded as
  Latin-1, one \<open>char\<close> per character: the ASCII capitals and the Latin-1 capitals
  (\<open>0xC0\<close> to \<open>0xDE\<close> but the multiplication sign \<open>0xD7\<close>) move up by 32.
\<close>

definition lower_char :: "char \<Rightarrow> char" where
  "lower_char c =
     (let n = (of_char c :: nat)
      in if (65 \<le> n \<and> n \<le> 90) \<or> (192 \<le> n \<and> n \<le> 222 \<and> n \<noteq> 215)
         then char_of (n + 32) else c)"

definition lower :: "string \<Rightarrow> string" where
  "lower s = map lower_char s"

text \<open>
  The header loop (lines 241 to 258). The builtin \<open>int\<close> is a parameter \<open>int_of\<close>:
  \<open>None\<close> is its \<open>ValueError\<close>. The accumulator is
  \<open>(timestamp_now, sleep_time, rotation)\<close>.
\<close>

fun parse_headers ::
  "(string \<Rightarrow> int option) \<Rightarrow> (string \<times> string) list \<Rightarrow> int \<times> int \<times> int \<Rightarrow> exn + int \<times> int \<times> int"
where
  "parse_headers int_of [] acc = Inr acc"
| "parse_headers int_of ((header, v) # rest) (timestamp_now, sleep, rot) =
     (let header_lower = lower header in
      if header_lower = ''timestamp'' then
        (case int_of v of None \<Rightarrow> Inl ValueError
         | Some n \<Rightarrow> parse_headers int_of rest (n, sleep, rot))
      else if header_lower = ''sleep'' then
        (case int_of v of None \<Rightarrow> Inl ValueError
         | Some n \<Rightarrow> parse_headers int_of rest (timestamp_now, n * 60, rot))
      else if header_lower = ''sleepseconds'' then
        (case int_of v of None \<Rightarrow> Inl ValueError
         | Some n \<Rightarrow> parse_headers int_of rest (timestamp_now, n, rot))
      else if header_lower = ''rotate'' then
        (case int_of v of None \<Rightarrow> Inl ValueError
         | Some n \<Rightarrow> parse_headers int_of rest (timestamp_now, sleep, n))
      else parse_headers int_of rest (timestamp_now, sleep, rot))"

text \<open>
  \<open>check_for_update\<close>: the result is what the method returns (or the exception that
  leaves it) together with the client's fields afterwards.
\<close>

definition check_for_update ::
  "(string \<Rightarrow> int option) \<Rightarrow> reply \<Rightarrow> client \<Rightarrow> (exn + bool \<times> int \<times> int) \<times> client"
where
  "check_for_update int_of r self =
     (case r of
        RequestException \<Rightarrow> (Inr (False, DEFAULT_SLEEP_TIME, 0), self)
      | Response status_code headers \<Rightarrow>
          if status_code \<noteq> 200 then (Inr (False, DEFAULT_SLEEP_TIME, 0), self)
          else
            (case parse_headers int_of headers (0, DEFAULT_SLEEP_TIME, 0) of
               Inl e \<Rightarrow> (Inl e, self)
             | Inr (timestamp_now, sleep, rot) \<Rightarrow>
                 if timestamp_now \<noteq> timestamp self then
                   (Inr (True, sleep, rot),
                    self\<lparr>timestamp := timestamp_now, sleep_time := sleep, rotation := rot\<rparr>)
                 else (Inr (False, sleep, rot), self)))"

text \<open>
  A run of the poller over a sequence of replies, as the main loop makes them: the
  results in order and the client after the last one. An exception leaves the fields as
  they are and the loop goes on.
\<close>

fun check_all ::
  "(string \<Rightarrow> int option) \<Rightarrow> reply list \<Rightarrow> client \<Rightarrow> (exn + bool \<times> int \<times> int) list \<times> client"
where
  "check_all int_of [] self = ([], self)"
| "check_all int_of (r # rs) self =
     (let (res, self') = check_for_update int_of r self;
          (ress, self'') = check_all int_of rs self'
      in (res # ress, self''))"

text \<open>
  A decimal reader for the examples: an optional minus sign and ASCII digits, the
  literals on which every reading of \<open>int\<close> agrees.
\<close>

definition digit_val :: "char \<Rightarrow> nat option" where
  "digit_val c =
     (let n = (of_char c :: nat) in if 48 \<le> n \<and> n \<le> 57 then Some (n - 48) else None)"

fun digits_val :: "string \<Rightarrow> nat \<Rightarrow> nat option" where
  "digits_val [] acc = Some acc"
| "digits_val (c # cs) acc =
     (case digit_val c of None \<Rightarrow> None | Some d \<Rightarrow> digits_val cs (acc * 10 + d))"

definition dec_int :: "string \<Rightarrow> int option" where
  "dec_int s =
     (case s of
        [] \<Rightarrow> None
      | c # cs \<Rightarrow>
          if c = CHR ''-'' then (if cs = [] then None else map_option (\<lambda>n. - int n) (digits_val cs 0))
          else map_option int (digits_val s 0))"

subsection \<open>The decision rule, as the specification states it\<close>

text \<open>
  Section 4.1 of the specification on a sequence of parsed responses
  \<open>(timestamp, sleepSeconds, rotation)\<close>: an update is needed iff the parsed timestamp
  differs from the stored one; the stored state is replaced by the parsed values when an
  update is needed and kept otherwise; the returned sleep and rotation are the parsed
  ones either way.
\<close>

fun spec_decisions :: "client \<Rightarrow> (int \<times> int \<times> int) list \<Rightarrow> (bool \<times> int \<times> int) list" where
  "spec_decisions state [] = []"
| "spec_decisions state ((ts, sl, ro) # ps) =
     (ts \<noteq> timestamp state, sl, ro) #
     spec_decisions
       (if ts \<noteq> timestamp state then \<lparr>timestamp = ts, sleep_time = sl, rotation = ro\<rparr> else state) ps"

fun spec_state :: "client \<Rightarrow> (int \<times> int \<times> int) list \<Rightarrow> client" where
  "spec_state state [] = state"
| "spec_state state ((ts, sl, ro) # ps) =
     spec_state
       (if ts \<noteq> timestamp state then \<lparr>timestamp = ts, sleep_time = sl, rotation = ro\<rparr> else state) ps"

section \<open>Images\<close>

text \<open>
  A PIL image as the decoders use it: its size and its cells, read and written through
  \<open>pixels[x, y]\<close>. A cell holds a grey level, \<open>COLOR_WHITE\<close> or \<open>COLOR_BLACK\<close>.
  The decoders write only at \<open>x < width\<close> and \<open>y < height\<close> (their loop bounds and
  guards), so no write raises.
\<close>

type_synonym byte = "8 word"

type_synonym pixels = "nat \<times> nat \<Rightarrow> nat"

record image =
  img_width :: nat
  img_height :: nat
  img_px :: pixels

text \<open>\<open>Image.new('L', (width, height), color)\<close>\<close>

definition Image_new :: "nat \<Rightarrow> nat \<Rightarrow> nat \<Rightarrow> image" where
  "Image_new w h color = \<lparr>img_width = w, img_height = h, img_px = (\<lambda>_. color)\<rparr>"

text \<open>
  \<open>image.convert('1')\<close> on an image whose cells are all 0 or 255, the only values the
  decoders write: the library's conversion then has no error to diffuse, and a cell
  above 128 becomes 255, any other 0.
\<close>

definition convert_1 :: "image \<Rightarrow> image" where
  "convert_1 img = img\<lparr>img_px := (\<lambda>p. if img_px img p > 128 then 255 else 0)\<rparr>"

text \<open>Reading a cell of a decoder's result (\<open>None\<close>: no image, or outside it).\<close>

definition getpixel :: "image option \<Rightarrow> nat \<Rightarrow> nat \<Rightarrow> nat option" where
  "getpixel r x y =
     (case r of
        None \<Rightarrow> None
      | Some img \<Rightarrow>
          if x < img_width img \<and> y < img_height img then Some (img_px img (x, y)) else None)"

text \<open>
  \<open>data[i]\<close> on the payload: \<open>None\<close> is Python's \<open>IndexError\<close>, which the decoders'
  \<open>except Exception\<close> turns into the result \<open>None\<close>. Every index here is non-negative.
\<close>

definition getbyte :: "byte list \<Rightarrow> nat \<Rightarrow> nat option" where
  "getbyte data i = (if i < length data then Some (unat (data ! i)) else None)"

section \<open>The run-length decoders\<close>

definition get_color_from_index :: "nat \<Rightarrow> nat" where
  "get_color_from_index pixel_color =
     (if pixel_color = 0 then COLOR_WHITE
      else if pixel_color = 1 then COLOR_BLACK
      else COLOR_BLACK)"

text \<open>
  The inner loop \<open>for _ in range(count)\<close>, the same text in the three decoders, on the
  state \<open>(pixels, x, y)\<close>. The \<open>break\<close> is the branch that returns without painting the
  rest of the run.
\<close>

fun paint_run :: "nat \<Rightarrow> nat \<Rightarrow> pixels \<times> nat \<times> nat \<Rightarrow> pixels \<times> nat \<times> nat" where
  "paint_run color 0 s = s"
| "paint_run color (Suc n) (px, x, y) =
     (let px' = (if x < DISPLAY_WIDTH \<and> y < DISPLAY_HEIGHT then px((x, y) := color) else px);
          x' = x + 1
      in if x' \<ge> DISPLAY_WIDTH then
           (let y' = y + 1
            in if y' \<ge> DISPLAY_HEIGHT then (px', 0, y') else paint_run color n (px', 0, y'))
         else paint_run color n (px', x', y))"

text \<open>The \<open>while\<close> loop of \<open>decode_rle_z1\<close>: a token is a colour byte and a count byte.\<close>

function z1_loop :: "byte list \<Rightarrow> nat \<Rightarrow> pixels \<times> nat \<times> nat \<Rightarrow> (pixels \<times> nat \<times> nat) option" where
  "z1_loop data idx (px, x, y) =
     (if idx + 1 < length data \<and> y < DISPLAY_HEIGHT then
        (case getbyte data idx of
           None \<Rightarrow> None
         | Some pixel_color \<Rightarrow>
             (case getbyte data (idx + 1) of
                None \<Rightarrow> None
              | Some count \<Rightarrow>
                  z1_loop data (idx + 2)
                    (paint_run (get_color_from_index pixel_color) count (px, x, y))))
      else Some (px, x, y))"
  by pat_completeness auto
termination
  by (relation "measure (\<lambda>(data, idx, s). length data - idx)") auto

definition decode_rle_z1 :: "byte list \<Rightarrow> image option" where
  "decode_rle_z1 data =
     (let img = Image_new DISPLAY_WIDTH DISPLAY_HEIGHT COLOR_WHITE
      in case z1_loop data 2 (img_px img, 0, 0) of
           None \<Rightarrow> None
         | Some (px, x, y) \<Rightarrow> Some (convert_1 (img\<lparr>img_px := px\<rparr>)))"

text \<open>\<open>decode_rle_z2\<close>: one byte, the colour in the top 2 bits, the count in the low 6.\<close>

function z2_loop :: "byte list \<Rightarrow> nat \<Rightarrow> pixels \<times> nat \<times> nat \<Rightarrow> (pixels \<times> nat \<times> nat) option" where
  "z2_loop data idx (px, x, y) =
     (if idx < length data \<and> y < DISPLAY_HEIGHT then
        (case getbyte data idx of
           None \<Rightarrow> None
         | Some compressed \<Rightarrow>
             (let count = compressed AND 0x3F;
                  pixel_color = drop_bit 6 (compressed AND 0xC0)
              in z2_loop data (idx + 1)
                   (paint_run (get_color_from_index pixel_color) count (px, x, y))))
      else Some (px, x, y))"
  by pat_completeness auto
termination
  by (relation "measure (\<lambda>(data, idx, s). length data - idx)") auto

definition decode_rle_z2 :: "byte list \<Rightarrow> image option" where
  "decode_rle_z2 data =
     (let img = Image_new DISPLAY_WIDTH DISPLAY_HEIGHT COLOR_WHITE
      in case z2_loop data 2 (img_px img, 0, 0) of
           None \<Rightarrow> None
         | Some (px, x, y) \<Rightarrow> Some (convert_1 (img\<lparr>img_px := px\<rparr>)))"

text \<open>\<open>decode_rle_z3\<close>: one byte, the colour in the top 3 bits, the count in the low 5.\<close>

function z3_loop :: "byte list \<Rightarrow> nat \<Rightarrow> pixels \<times> nat \<times> nat \<Rightarrow> (pixels \<times> nat \<times> nat) option" where
  "z3_loop data idx (px, x, y) =
     (if idx < length data \<and> y < DISPLAY_HEIGHT then
        (case getbyte data idx of
           None \<Rightarrow> None
         | Some compressed \<Rightarrow>
             (let count = compressed AND 0x1F;
                  pixel_color = drop_bit 5 (compressed AND 0xE0)
              in z3_loop data (idx + 1)
                   (paint_run (get_color_from_index pixel_color) count (px, x, y))))
      else Some (px, x, y))"
  by pat_completeness auto
termination
  by (relation "measure (\<lambda>(data, idx, s). length data - idx)") auto

definition decode_rle_z3 :: "byte list \<Rightarrow> image option" where
  "decode_rle_z3 data =
     (let img = Image_new DISPLAY_WIDTH DISPLAY_HEIGHT COLOR_WHITE
      in case z3_loop data 2 (img_px img, 0, 0) of
           None \<Rightarrow> None
         | Some (px, x, y) \<Rightarrow> Some (convert_1 (img\<lparr>img_px := px\<rparr>)))"

text \<open>
  The three loops as one: painting a list of (colour index, count) tokens while the
  cursor is above the last row.
\<close>

fun paint_runs :: "(nat \<times> nat) list \<Rightarrow> pixels \<times> nat \<times> nat \<Rightarrow> pixels \<times> nat \<times> nat" where
  "paint_runs [] s = s"
| "paint_runs ((pixel_color, count) # ts) (px, x, y) =
     (if y < DISPLAY_HEIGHT then
        paint_runs ts (paint_run (get_color_from_index pixel_color) count (px, x, y))
      else (px, x, y))"

text \<open>The image a decoder returns once its loop has painted the tokens \<open>ts\<close>.\<close>

definition rle_image :: "(nat \<times> nat) list \<Rightarrow> image" where
  "rle_image ts =
     (let img = Image_new DISPLAY_WIDTH DISPLAY_HEIGHT COLOR_WHITE
      in case paint_runs ts (img_px img, 0, 0) of
           (px, x, y) \<Rightarrow> convert_1 (img\<lparr>img_px := px\<rparr>))"

subsection \<open>The token streams, as the specification describes them\<close>

text \<open>
  The tokens of a stream after its 2-byte magic, following the token table of the
  specification (section 4.4), and the cells they describe in raster order: each token's
  colour, \<open>count\<close> times. These are what the decoders are compared with.
\<close>

fun z1_pairs :: "byte list \<Rightarrow> (nat \<times> nat) list" where
  "z1_pairs (c # n # rest) = (unat c, unat n) # z1_pairs rest"
| "z1_pairs _ = []"

definition z1_tokens :: "byte list \<Rightarrow> (nat \<times> nat) list" where
  "z1_tokens data = z1_pairs (drop 2 data)"

definition z2_tokens :: "byte list \<Rightarrow> (nat \<times> nat) list" where
  "z2_tokens data = map (\<lambda>b. (unat b div 64, unat b mod 64)) (drop 2 data)"

definition z3_tokens :: "byte list \<Rightarrow> (nat \<times> nat) list" where
  "z3_tokens data = map (\<lambda>b. (unat b div 32, unat b mod 32)) (drop 2 data)"

definition run_cells :: "(nat \<times> nat) list \<Rightarrow> nat list" where
  "run_cells ts = concat (map (\<lambda>(c, n). replicate n (if c = 0 then 255 else 0)) ts)"

definition run_total :: "(nat \<times> nat) list \<Rightarrow> nat" where
  "run_total ts = sum_list (map snd ts)"

subsection \<open>Example streams\<close>

text \<open>
  A Z1 stream of one run of 3; a Z1 stream of a white run of 255 and 1506 black runs of
  255 (384285 cells, more than the canvas has); the Z2 stream of the specification's
  example.
\<close>

definition z1_short :: "byte list" where
  "z1_short = [0x5A, 0x31, 0x01, 0x03]"

definition z1_long :: "byte list" where
  "z1_long = [0x5A, 0x31, 0x00, 0xFF] @ concat (replicate 1506 [0x01, 0xFF])"

definition z2_example :: "byte list" where
  "z2_example = [0x31, 0x5A, 0x45, 0xC2]"

section \<open>The BMP decoder: \<open>ZivyObrazClient.decode_bmp\<close>\<close>

text \<open>
  \<open>struct.unpack\<close> of \<open>'<H'\<close>, \<open>'<I'\<close> and \<open>'<i'\<close> on a slice of the payload. Every use
  stands behind a length check (54 bytes in \<open>decode_bmp\<close>, 2 bytes in the format
  dispatch) that keeps the slice inside the payload.
\<close>

definition le16 :: "byte list \<Rightarrow> nat \<Rightarrow> nat" where
  "le16 data off = unat (data ! off) + 256 * unat (data ! (off + 1))"

definition le32 :: "byte list \<Rightarrow> nat \<Rightarrow> nat" where
  "le32 data off =
     unat (data ! off) + 256 * unat (data ! (off + 1)) + 65536 * unat (data ! (off + 2)) +
     16777216 * unat (data ! (off + 3))"

definition le32s :: "byte list \<Rightarrow> nat \<Rightarrow> int" where
  "le32s data off =
     (let u = int (le32 data off) in if u < 2147483648 then u else u - 4294967296)"

text \<open>
  The header fields the decoder keeps (\<open>file_size\<close> is read and never used), and the
  four ways the header is refused, each of which logs its message and returns \<open>None\<close>.
\<close>

record bmp_header =
  image_offset :: nat
  header_size :: nat
  width :: nat
  height :: int
  planes :: nat
  depth :: nat
  compression :: nat

datatype bmp_error =
  DataTooShort
| InvalidSignature
| UnsupportedPlanes nat
| UnsupportedCompression nat

definition read_header :: "byte list \<Rightarrow> bmp_error + bmp_header" where
  "read_header data =
     (if length data < 54 then Inl DataTooShort
      else if le16 data 0 \<noteq> 0x4D42 then Inl InvalidSignature
      else
        (let h = \<lparr>image_offset = le32 data 10, header_size = le32 data 14,
                  width = le32 data 18, height = le32s data 22, planes = le16 data 26,
                  depth = le16 data 28, compression = le32 data 30\<rparr>
         in if planes h \<noteq> 1 then Inl (UnsupportedPlanes (planes h))
            else if compression h \<noteq> 0 \<and> compression h \<noteq> 3 then
              Inl (UnsupportedCompression (compression h))
            else Inr h))"

definition row_size :: "nat \<Rightarrow> nat \<Rightarrow> nat" where
  "row_size w d =
     (if d < 8 then ((w * d + 31) div 32) * 4 else ((w * d div 8 + 3) div 4) * 4)"

text \<open>The palette of an indexed image: \<open>1 << depth\<close> entries, white where the bytes are missing.\<close>

definition palette_entry :: "byte list \<Rightarrow> nat \<Rightarrow> nat" where
  "palette_entry data idx =
     (if idx + 4 \<le> length data then
        (let b = unat (data ! idx); g = unat (data ! (idx + 1)); r = unat (data ! (idx + 2));
             gray = (r + g + b) div 3
         in if gray > 0x80 then COLOR_WHITE else COLOR_BLACK)
      else COLOR_WHITE)"

definition read_palette :: "byte list \<Rightarrow> nat \<Rightarrow> nat \<Rightarrow> nat list" where
  "read_palette data hsize d =
     (if d \<le> 8 then
        (let palette_offset = 14 + hsize; num_colors = 2 ^ d
         in map (\<lambda>i. palette_entry data (palette_offset + i * 4)) [0..<num_colors])
      else [])"

text \<open>
  The body of the loop over the columns, one function for each branch on the depth.
  The result is \<open>None\<close> when the body raises (\<open>IndexError\<close> of a read), \<open>Some None\<close>
  when it writes no cell, and \<open>Some (Some v)\<close> when it writes \<open>pixels[col, y] = v\<close>.
\<close>

definition pixel_1 :: "byte list \<Rightarrow> nat list \<Rightarrow> nat \<Rightarrow> nat \<Rightarrow> nat option option" where
  "pixel_1 data palette row_offset col =
     (let byte_idx = row_offset + col div 8 in
      if byte_idx < length data then
        (case getbyte data byte_idx of
           None \<Rightarrow> None
         | Some byte \<Rightarrow>
             (let bit = 7 - col mod 8; pn = drop_bit bit byte AND 1
              in Some (Some (if pn < length palette then palette ! pn else COLOR_WHITE))))
      else Some None)"

definition pixel_4 :: "byte list \<Rightarrow> nat list \<Rightarrow> nat \<Rightarrow> nat \<Rightarrow> nat option option" where
  "pixel_4 data palette row_offset col =
     (let byte_idx = row_offset + col div 2 in
      if byte_idx < length data then
        (case getbyte data byte_idx of
           None \<Rightarrow> None
         | Some byte \<Rightarrow>
             (let pn = (if col mod 2 = 0 then drop_bit 4 byte AND 0x0F else byte AND 0x0F)
              in Some (Some (if pn < length palette then palette ! pn else COLOR_WHITE))))
      else Some None)"

definition pixel_8 :: "byte list \<Rightarrow> nat list \<Rightarrow> nat \<Rightarrow> nat \<Rightarrow> nat option option" where
  "pixel_8 data palette row_offset col =
     (let byte_idx = row_offset + col in
      if byte_idx < length data then
        (case getbyte data byte_idx of
           None \<Rightarrow> None
         | Some pn \<Rightarrow> Some (Some (if pn < length palette then palette ! pn else COLOR_WHITE)))
      else Some None)"

definition pixel_16 :: "byte list \<Rightarrow> nat \<Rightarrow> nat \<Rightarrow> nat \<Rightarrow> nat option option" where
  "pixel_16 data compr row_offset col =
     (let byte_idx = row_offset + col * 2 in
      if byte_idx + 1 < length data then
        (case getbyte data byte_idx of
           None \<Rightarrow> None
         | Some lsb \<Rightarrow>
             (case getbyte data (byte_idx + 1) of
                None \<Rightarrow> None
              | Some msb \<Rightarrow>
                  (let r = (if compr = 0 then push_bit 1 (msb AND 0x7C) else msb AND 0xF8);
                       g = (if compr = 0 then push_bit 6 (msb AND 0x03) OR drop_bit 2 (lsb AND 0xE0)
                            else push_bit 5 (msb AND 0x07) OR drop_bit 3 (lsb AND 0xE0));
                       b = push_bit 3 (lsb AND 0x1F);
                       whitish = (r + g + b > 3 * 0x80)
                   in Some (Some (if whitish then COLOR_WHITE else COLOR_BLACK)))))
      else Some None)"

definition pixel_24 :: "byte list \<Rightarrow> nat \<Rightarrow> nat \<Rightarrow> nat \<Rightarrow> nat option option" where
  "pixel_24 data bytes_per_pixel row_offset col =
     (let byte_idx = row_offset + col * bytes_per_pixel in
      if byte_idx + 2 < length data then
        (case getbyte data byte_idx of
           None \<Rightarrow> None
         | Some b \<Rightarrow>
             (case getbyte data (byte_idx + 1) of
                None \<Rightarrow> None
              | Some g \<Rightarrow>
                  (case getbyte data (byte_idx + 2) of
                     None \<Rightarrow> None
                   | Some r \<Rightarrow>
                       (let whitish = (r + g + b > 3 * 0x80)
                        in Some (Some (if whitish then COLOR_WHITE else COLOR_BLACK))))))
      else Some None)"

text \<open>
  The \<open>if\<close>/\<open>elif\<close> chain on the depth (lines 423 to 476). It has no \<open>else\<close>: at any
  other depth the row is left as it is.
\<close>

definition row_pixel :: "byte list \<Rightarrow> bmp_header \<Rightarrow> nat list \<Rightarrow> nat \<Rightarrow> nat \<Rightarrow> nat option option" where
  "row_pixel data h palette row_offset col =
     (if depth h = 1 then pixel_1 data palette row_offset col
      else if depth h = 4 then pixel_4 data palette row_offset col
      else if depth h = 8 then pixel_8 data palette row_offset col
      else if depth h = 16 then pixel_16 data (compression h) row_offset col
      else if depth h = 24 \<or> depth h = 32 then pixel_24 data (depth h div 8) row_offset col
      else Some None)"

text \<open>The loop \<open>for col in range(width)\<close> on the cells, writing row \<open>y\<close>.\<close>

fun paint_cols :: "(nat \<Rightarrow> nat option option) \<Rightarrow> nat \<Rightarrow> nat list \<Rightarrow> pixels \<Rightarrow> pixels option" where
  "paint_cols f y [] px = Some px"
| "paint_cols f y (col # cols) px =
     (case f col of
        None \<Rightarrow> None
      | Some None \<Rightarrow> paint_cols f y cols px
      | Some (Some v) \<Rightarrow> paint_cols f y cols (px((col, y) := v)))"

text \<open>
  The loop \<open>for row in range(height)\<close>, where \<open>height\<close> is already the absolute value
  and \<open>flip\<close> is \<open>height > 0\<close> of the header's signed field.
\<close>

fun paint_rows :: "byte list \<Rightarrow> bmp_header \<Rightarrow> nat list \<Rightarrow> nat list \<Rightarrow> pixels \<Rightarrow> pixels option" where
  "paint_rows data h palette [] px = Some px"
| "paint_rows data h palette (row # rows) px =
     (let flip = (height h > 0);
          abs_height = nat \<bar>height h\<bar>;
          y = (if flip then abs_height - 1 - row else row);
          row_offset = image_offset h + row * row_size (width h) (depth h)
      in case paint_cols (row_pixel data h palette row_offset) y [0..<width h] px of
           None \<Rightarrow> None
         | Some px' \<Rightarrow> paint_rows data h palette rows px')"

definition decode_bmp :: "byte list \<Rightarrow> image option" where
  "decode_bmp data =
     (case read_header data of
        Inl e \<Rightarrow> None
      | Inr h \<Rightarrow>
          (let abs_height = nat \<bar>height h\<bar>;
               img = Image_new (width h) abs_height COLOR_WHITE;
               palette = read_palette data (header_size h) (depth h)
           in case paint_rows data h palette [0..<abs_height] (img_px img) of
                None \<Rightarrow> None
              | Some px \<Rightarrow> Some (convert_1 (img\<lparr>img_px := px\<rparr>))))"

section \<open>The format dispatch of \<open>download_and_display_image\<close>\<close>

text \<open>
  Lines 302 to 327, from the downloaded bytes to the decoded image. Each failure
  logs its message and makes the method return \<open>False\<close>.
\<close>

datatype download_error =
  ResponseTooShort
| UnknownImageFormat nat
| FailedToDecode

definition decoded :: "image option \<Rightarrow> download_error + image" where
  "decoded r = (case r of None \<Rightarrow> Inl FailedToDecode | Some img \<Rightarrow> Inr img)"

definition decode_payload :: "byte list \<Rightarrow> download_error + image" where
  "decode_payload data =
     (if length data < 2 then Inl ResponseTooShort
      else
        (let header = le16 data 0 in
         if header = 0x4D42 then decoded (decode_bmp data)
         else if header = 0x315A then decoded (decode_rle_z1 data)
         else if header = 0x325A then decoded (decode_rle_z2 data)
         else if header = 0x335A then decoded (decode_rle_z3 data)
         else Inl (UnknownImageFormat header)))"

section \<open>What the BMP decoder is compared with\<close>




subsection \<open>Example files\<close>

text \<open>
  A 102-byte file of 8 by 10 cells: the 54-byte header (pixel array at 62, header size
  40, one plane, no compression) with the height and depth fields as given, a palette
  of black and white, and ten rows of 4 bytes of which the first starts with \<open>0xF0\<close> and
  all others are 0. The three files have the heights -10, 10 and 10 and the depths 1, 1
  and 2.
\<close>

definition bmp_example :: "byte list \<Rightarrow> byte list \<Rightarrow> byte list" where
  "bmp_example height_bytes depth_bytes =
     [0x42, 0x4D, 0x66, 0, 0, 0, 0, 0, 0, 0, 0x3E, 0, 0, 0,
      0x28, 0, 0, 0, 8, 0, 0, 0] @ height_bytes @ [1, 0] @ depth_bytes @
     [0, 0, 0, 0, 0, 0, 0, 0, 0, 0, 0, 0, 0, 0, 0, 0, 0, 0, 0, 0, 0, 0, 0, 0,
      0, 0, 0, 0, 0xFF, 0xFF, 0xFF, 0,
      0xF0, 0, 0, 0, 0, 0, 0, 0, 0, 0, 0, 0, 0, 0, 0, 0, 0, 0, 0, 0,
      0, 0, 0, 0, 0, 0, 0, 0, 0, 0, 0, 0, 0, 0, 0, 0, 0, 0, 0, 0]"

definition bmp_top_down :: "byte list" where
  "bmp_top_down = bmp_example [0xF6, 0xFF, 0xFF, 0xFF] [1, 0]"




section \<open>Properties\<close>

subsection \<open>Raster arithmetic\<close>

lemma raster_unique:
  fixes i j x y W :: nat
  assumes "i < W" "x < W" "j * W + i = y * W + x"
  shows "i = x \<and> j = y"
proof -
  from assms(3) have "(j * W + i) mod W = (y * W + x) mod W" "(j * W + i) div W = (y * W + x) div W"
    by simp_all
  with assms(1,2) show ?thesis by simp
qed

lemma raster_bound:
  fixes i j W H :: nat
  assumes "i < W" "j < H"
  shows "j * W + i < W * H"
proof -
  from assms(2) have "Suc j \<le> H" by simp
  then have "Suc j * W \<le> H * W" by (rule mult_le_mono1)
  with assms(1) show ?thesis by (simp add: mult.commute)
qed

subsection \<open>One run\<close>

lemma paint_run_pixels:
  assumes "x < DISPLAY_WIDTH" "y < DISPLAY_HEIGHT"
    and "paint_run c n (px, x, y) = (px', x', y')"
    and "i < DISPLAY_WIDTH" "j < DISPLAY_HEIGHT"
  shows "px' (i, j) =
     (if y * DISPLAY_WIDTH + x \<le> j * DISPLAY_WIDTH + i \<and>
         j * DISPLAY_WIDTH + i < y * DISPLAY_WIDTH + x + n
      then c else px (i, j))"
  using assms(1-3)
proof (induction n arbitrary: px x y)
  case 0
  then show ?case by auto
next
  case (Suc n)
  define k where "k = j * DISPLAY_WIDTH + i"
  define p where "p = y * DISPLAY_WIDTH + x"
  define px1 where "px1 = px((x, y) := c)"
  have kp: "k = p \<longleftrightarrow> i = x \<and> j = y"
    using raster_unique [OF assms(4) Suc.prems(1), of j y] by (auto simp: k_def p_def)
  have px1: "px1 (i, j) = (if k = p then c else px (i, j))"
    by (simp add: px1_def kp)
  have kb: "k < DISPLAY_WIDTH * DISPLAY_HEIGHT"
    unfolding k_def by (rule raster_bound [OF assms(4,5)])
  show ?case
  proof (cases "x + 1 \<ge> DISPLAY_WIDTH")
    case True
    then have xe: "x + 1 = DISPLAY_WIDTH" using Suc.prems(1) by simp
    show ?thesis
    proof (cases "y + 1 \<ge> DISPLAY_HEIGHT")
      case True
      then have ye: "y + 1 = DISPLAY_HEIGHT" using Suc.prems(2) by simp
      have "px' = px1"
        using Suc.prems xe ye by (simp add: Let_def px1_def)
      moreover have "p + 1 = DISPLAY_WIDTH * DISPLAY_HEIGHT"
        using xe ye by (simp add: p_def flip: xe ye)
      ultimately show ?thesis
        using px1 kb by (auto simp flip: k_def p_def)
    next
      case False
      with xe Suc.prems
      have pr: "paint_run c n (px1, 0, y + 1) = (px', x', y')"
        by (simp add: Let_def px1_def)
      have "px' (i, j) =
        (if (y + 1) * DISPLAY_WIDTH + 0 \<le> j * DISPLAY_WIDTH + i \<and>
            j * DISPLAY_WIDTH + i < (y + 1) * DISPLAY_WIDTH + 0 + n then c else px1 (i, j))"
        using False Suc.prems(1) by (intro Suc.IH [OF _ _ pr]) simp_all
      moreover have "(y + 1) * DISPLAY_WIDTH + 0 = p + 1"
        using xe by (simp add: p_def)
      ultimately show ?thesis
        using px1 by (auto simp flip: k_def p_def)
    qed
  next
    case False
    with Suc.prems
    have pr: "paint_run c n (px1, x + 1, y) = (px', x', y')"
      by (simp add: Let_def px1_def)
    have "px' (i, j) =
      (if y * DISPLAY_WIDTH + (x + 1) \<le> j * DISPLAY_WIDTH + i \<and>
          j * DISPLAY_WIDTH + i < y * DISPLAY_WIDTH + (x + 1) + n then c else px1 (i, j))"
      using False Suc.prems(2) by (intro Suc.IH [OF _ _ pr]) simp_all
    moreover have "y * DISPLAY_WIDTH + (x + 1) = p + 1"
      by (simp add: p_def)
    ultimately show ?thesis
      using px1 by (auto simp flip: k_def p_def)
  qed
qed

lemma paint_run_cursor:
  "x < DISPLAY_WIDTH \<Longrightarrow> y < DISPLAY_HEIGHT \<Longrightarrow>
   paint_run c n (px, x, y) = (px', x', y') \<Longrightarrow>
   (if DISPLAY_WIDTH * DISPLAY_HEIGHT \<le> y * DISPLAY_WIDTH + x + n then x' = 0 \<and> y' = DISPLAY_HEIGHT
    else x' < DISPLAY_WIDTH \<and> y' < DISPLAY_HEIGHT \<and> y' * DISPLAY_WIDTH + x' = y * DISPLAY_WIDTH + x + n)"
proof (induction n arbitrary: px x y)
  case 0
  then show ?case using raster_bound [of x DISPLAY_WIDTH y DISPLAY_HEIGHT] by auto
next
  case (Suc n)
  show ?case
  proof (cases "x + 1 \<ge> DISPLAY_WIDTH")
    case True
    then have xe: "x + 1 = DISPLAY_WIDTH" using Suc.prems(1) by simp
    show ?thesis
    proof (cases "y + 1 \<ge> DISPLAY_HEIGHT")
      case True
      then have ye: "y + 1 = DISPLAY_HEIGHT" using Suc.prems(2) by simp
      have "x' = 0 \<and> y' = DISPLAY_HEIGHT"
        using Suc.prems xe ye by (simp add: Let_def)
      moreover have "y * DISPLAY_WIDTH + x + 1 = DISPLAY_WIDTH * DISPLAY_HEIGHT"
        by (simp flip: xe ye)
      ultimately show ?thesis by simp
    next
      case False
      with xe Suc.prems
      have pr: "paint_run c n (px((x, y) := c), 0, y + 1) = (px', x', y')"
        by (simp add: Let_def)
      have "(y + 1) * DISPLAY_WIDTH + 0 = y * DISPLAY_WIDTH + x + 1"
        using xe by simp
      with Suc.IH [OF _ _ pr] False Suc.prems(1) show ?thesis
        by (simp split: if_splits)
    qed
  next
    case False
    with Suc.prems
    have pr: "paint_run c n (px((x, y) := c), x + 1, y) = (px', x', y')"
      by (simp add: Let_def)
    from Suc.IH [OF _ _ pr] False Suc.prems(2) show ?thesis
      by (simp split: if_splits)
  qed
qed

subsection \<open>The token bytes\<close>

lemma and_low6: "(n::nat) AND 0x3F = n mod 64"
proof -
  have "n AND mask 6 = n mod 2 ^ 6" by (simp flip: take_bit_eq_mask add: take_bit_eq_mod)
  then show ?thesis by (simp add: mask_eq_exp_minus_1)
qed

lemma and_low5: "(n::nat) AND 0x1F = n mod 32"
proof -
  have "n AND mask 5 = n mod 2 ^ 5" by (simp flip: take_bit_eq_mask add: take_bit_eq_mod)
  then show ?thesis by (simp add: mask_eq_exp_minus_1)
qed

lemma top2: "n < 256 \<Longrightarrow> drop_bit 6 (n::nat) AND 3 = n div 64"
proof -
  assume n: "n < 256"
  have "drop_bit 6 n AND mask 2 = (n div 64) mod 4"
    by (simp flip: take_bit_eq_mask add: take_bit_eq_mod drop_bit_eq_div)
  with n show ?thesis by (simp add: mask_eq_exp_minus_1)
qed

lemma top3: "n < 256 \<Longrightarrow> drop_bit 5 (n::nat) AND 7 = n div 32"
proof -
  assume n: "n < 256"
  have "drop_bit 5 n AND mask 3 = (n div 32) mod 8"
    by (simp flip: take_bit_eq_mask add: take_bit_eq_mod drop_bit_eq_div)
  with n show ?thesis by (simp add: mask_eq_exp_minus_1)
qed

lemma unat_byte_less: "unat (b :: byte) < 256"
  using unsigned_less [of b] by simp

lemma getbyte_in_range: "i < length data \<Longrightarrow> getbyte data i = Some (unat (data ! i))"
  by (simp add: getbyte_def)

lemma z1_pairs_drop:
  "idx + 1 < length data \<Longrightarrow>
   z1_pairs (drop idx data) = (unat (data ! idx), unat (data ! (idx + 1))) # z1_pairs (drop (idx + 2) data)"
proof -
  assume a: "idx + 1 < length data"
  then have "drop idx data = data ! idx # data ! (idx + 1) # drop (idx + 2) data"
    by (simp add: Cons_nth_drop_Suc)
  then show ?thesis by simp
qed

lemma z1_pairs_short: "length xs \<le> 1 \<Longrightarrow> z1_pairs xs = []"
  by (cases xs rule: z1_pairs.cases) auto

lemma z1_loop_runs: "z1_loop data idx s = Some (paint_runs (z1_pairs (drop idx data)) s)"
proof (induction data idx s rule: z1_loop.induct)
  case (1 data idx px x y)
  show ?case
  proof (cases "idx + 1 < length data")
    case True
    note inr = True
    show ?thesis
    proof (cases "y < DISPLAY_HEIGHT")
      case True
      with inr "1.IH" [OF _ getbyte_in_range getbyte_in_range] show ?thesis
        by (subst z1_loop.simps) (simp add: getbyte_in_range z1_pairs_drop)
    next
      case False
      with inr show ?thesis
        by (subst z1_loop.simps) (simp add: z1_pairs_drop)
    qed
  next
    case False
    then have "z1_pairs (drop idx data) = []" by (intro z1_pairs_short) simp
    with False show ?thesis by (subst z1_loop.simps) simp
  qed
qed

lemma z2_loop_runs:
  "z2_loop data idx s =
     Some (paint_runs (map (\<lambda>b. (unat b div 64, unat b mod 64)) (drop idx data)) s)"
proof (induction data idx s rule: z2_loop.induct)
  case (1 data idx px x y)
  show ?case
  proof (cases "idx < length data")
    case True
    note inr = True
    then have d: "drop idx data = data ! idx # drop (idx + 1) data"
      by (simp add: Cons_nth_drop_Suc)
    show ?thesis
    proof (cases "y < DISPLAY_HEIGHT")
      case True
      with inr "1.IH" [OF _ getbyte_in_range] show ?thesis
        by (subst z2_loop.simps)
           (simp add: getbyte_in_range d and_low6 top2 unat_byte_less Let_def)
    next
      case False
      with inr show ?thesis
        by (subst z2_loop.simps) (simp add: d)
    qed
  next
    case False
    then show ?thesis by (subst z2_loop.simps) simp
  qed
qed

lemma z3_loop_runs:
  "z3_loop data idx s =
     Some (paint_runs (map (\<lambda>b. (unat b div 32, unat b mod 32)) (drop idx data)) s)"
proof (induction data idx s rule: z3_loop.induct)
  case (1 data idx px x y)
  show ?case
  proof (cases "idx < length data")
    case True
    note inr = True
    then have d: "drop idx data = data ! idx # drop (idx + 1) data"
      by (simp add: Cons_nth_drop_Suc)
    show ?thesis
    proof (cases "y < DISPLAY_HEIGHT")
      case True
      with inr "1.IH" [OF _ getbyte_in_range] show ?thesis
        by (subst z3_loop.simps)
           (simp add: getbyte_in_range d and_low5 top3 unat_byte_less Let_def)
    next
      case False
      with inr show ?thesis
        by (subst z3_loop.simps) (simp add: d)
    qed
  next
    case False
    then show ?thesis by (subst z3_loop.simps) simp
  qed
qed

subsection \<open>A list of runs\<close>

lemma get_color_from_index_eq: "get_color_from_index c = (if c = 0 then 255 else 0)"
  by (simp add: get_color_from_index_def COLOR_WHITE_def COLOR_BLACK_def)

lemma run_cells_Cons:
  "run_cells ((c, n) # ts) = replicate n (get_color_from_index c) @ run_cells ts"
  by (simp add: run_cells_def get_color_from_index_eq)

lemma run_cells_Nil: "run_cells [] = []"
  by (simp add: run_cells_def)

lemma length_run_cells: "length (run_cells ts) = run_total ts"
  by (induction ts) (auto simp: run_cells_def run_total_def)

lemma run_cells_values: "v \<in> set (run_cells ts) \<Longrightarrow> v = 0 \<or> v = 255"
  by (auto simp: run_cells_def split: if_splits)

lemma paint_runs_pixels:
  assumes "i < DISPLAY_WIDTH" "j < DISPLAY_HEIGHT"
  shows "x < DISPLAY_WIDTH \<Longrightarrow> paint_runs ts (px, x, y) = (px', x', y') \<Longrightarrow>
     px' (i, j) =
       (if y * DISPLAY_WIDTH + x \<le> j * DISPLAY_WIDTH + i \<and>
           j * DISPLAY_WIDTH + i < y * DISPLAY_WIDTH + x + length (run_cells ts)
        then run_cells ts ! (j * DISPLAY_WIDTH + i - (y * DISPLAY_WIDTH + x))
        else px (i, j))"
proof (induction ts arbitrary: px x y)
  case Nil
  then show ?case by (simp add: run_cells_Nil)
next
  case (Cons t ts)
  obtain c n where t: "t = (c, n)" by (cases t) auto
  define k where "k = j * DISPLAY_WIDTH + i"
  define p where "p = y * DISPLAY_WIDTH + x"
  define col where "col = get_color_from_index c"
  have kb: "k < DISPLAY_WIDTH * DISPLAY_HEIGHT"
    unfolding k_def by (rule raster_bound [OF assms])
  show ?case
  proof (cases "y < DISPLAY_HEIGHT")
    case False
    then have "DISPLAY_HEIGHT \<le> y" by simp
    then have "DISPLAY_WIDTH * DISPLAY_HEIGHT \<le> DISPLAY_WIDTH * y" by (rule mult_le_mono2)
    moreover have "DISPLAY_WIDTH * y \<le> p" by (simp add: p_def mult.commute)
    ultimately have "\<not> p \<le> k" using kb by linarith
    moreover have "px' = px" using Cons.prems(2) False by (simp add: t)
    ultimately show ?thesis by (simp flip: k_def p_def)
  next
    case True
    obtain px1 x1 y1 where s1: "paint_run col n (px, x, y) = (px1, x1, y1)"
      by (cases "paint_run col n (px, x, y)") auto
    from Cons.prems(2) True have rest: "paint_runs ts (px1, x1, y1) = (px', x', y')"
      by (simp add: t s1 flip: col_def)
    have p1: "px1 (i, j) = (if p \<le> k \<and> k < p + n then col else px (i, j))"
      unfolding k_def p_def by (rule paint_run_pixels [OF Cons.prems(1) True s1 assms])
    have cur: "if DISPLAY_WIDTH * DISPLAY_HEIGHT \<le> p + n then x1 = 0 \<and> y1 = DISPLAY_HEIGHT
      else x1 < DISPLAY_WIDTH \<and> y1 < DISPLAY_HEIGHT \<and> y1 * DISPLAY_WIDTH + x1 = p + n"
      unfolding p_def by (rule paint_run_cursor [OF Cons.prems(1) True s1])
    have x1: "x1 < DISPLAY_WIDTH" using cur Cons.prems(1) by (auto split: if_splits)
    have ih: "px' (i, j) =
       (if y1 * DISPLAY_WIDTH + x1 \<le> k \<and> k < y1 * DISPLAY_WIDTH + x1 + length (run_cells ts)
        then run_cells ts ! (k - (y1 * DISPLAY_WIDTH + x1)) else px1 (i, j))"
      unfolding k_def by (rule Cons.IH [OF x1 rest])
    have cells: "run_cells (t # ts) = replicate n col @ run_cells ts"
      by (simp add: t run_cells_Cons col_def)
    show ?thesis
    proof (cases "DISPLAY_WIDTH * DISPLAY_HEIGHT \<le> p + n")
      case True
      with cur have "y1 * DISPLAY_WIDTH + x1 = DISPLAY_WIDTH * DISPLAY_HEIGHT"
        by (simp add: mult.commute)
      with ih kb have "px' (i, j) = px1 (i, j)" by simp
      with p1 True kb show ?thesis
        by (auto simp: cells nth_append simp flip: k_def p_def)
    next
      case False
      with cur have "y1 * DISPLAY_WIDTH + x1 = p + n" by simp
      with ih p1 show ?thesis
        by (auto simp: cells nth_append simp flip: k_def p_def)
    qed
  qed
qed

lemma paint_runs_cursor:
  "x < DISPLAY_WIDTH \<Longrightarrow> y < DISPLAY_HEIGHT \<Longrightarrow>
   paint_runs ts (px, x, y) = (px', x', y') \<Longrightarrow>
   (if DISPLAY_WIDTH * DISPLAY_HEIGHT \<le> y * DISPLAY_WIDTH + x + length (run_cells ts)
    then x' = 0 \<and> y' = DISPLAY_HEIGHT
    else x' < DISPLAY_WIDTH \<and> y' < DISPLAY_HEIGHT \<and>
         y' * DISPLAY_WIDTH + x' = y * DISPLAY_WIDTH + x + length (run_cells ts))"
proof (induction ts arbitrary: px x y)
  case Nil
  then show ?case
    using raster_bound [of x DISPLAY_WIDTH y DISPLAY_HEIGHT] by (auto simp: run_cells_Nil)
next
  case (Cons t ts)
  obtain c n where t: "t = (c, n)" by (cases t) auto
  define col where "col = get_color_from_index c"
  obtain px1 x1 y1 where s1: "paint_run col n (px, x, y) = (px1, x1, y1)"
    by (cases "paint_run col n (px, x, y)") auto
  from Cons.prems have rest: "paint_runs ts (px1, x1, y1) = (px', x', y')"
    by (simp add: t s1 flip: col_def)
  have cells: "length (run_cells (t # ts)) = n + length (run_cells ts)"
    by (simp add: t run_cells_Cons)
  note cur = paint_run_cursor [OF Cons.prems(1,2) s1]
  show ?case
  proof (cases "DISPLAY_WIDTH * DISPLAY_HEIGHT \<le> y * DISPLAY_WIDTH + x + n")
    case True
    with cur have e: "x1 = 0" "y1 = DISPLAY_HEIGHT" by simp_all
    have "ts = [] \<or> (\<exists>c' n' ts'. ts = (c', n') # ts')" by (cases ts) auto
    with rest e have "x' = 0 \<and> y' = DISPLAY_HEIGHT" by auto
    with True show ?thesis by (simp add: cells)
  next
    case False
    with cur have c1: "x1 < DISPLAY_WIDTH" "y1 < DISPLAY_HEIGHT"
      "y1 * DISPLAY_WIDTH + x1 = y * DISPLAY_WIDTH + x + n" by simp_all
    from Cons.IH [OF c1(1,2) rest] c1(3) show ?thesis
      by (simp add: cells add.assoc)
  qed
qed

section \<open>The update poller\<close>

lemma check_for_update_parsed:
  assumes "parse_headers int_of hs (0, DEFAULT_SLEEP_TIME, 0) = Inr (ts, sl, ro)"
  shows "check_for_update int_of (Response 200 hs) self =
     (Inr (ts \<noteq> timestamp self, sl, ro),
      if ts \<noteq> timestamp self then \<lparr>timestamp = ts, sleep_time = sl, rotation = ro\<rparr> else self)"
  using assms by (simp add: check_for_update_def)

lemma check_all_parsed:
  "map (\<lambda>hs. parse_headers int_of hs (0, DEFAULT_SLEEP_TIME, 0)) hss = map Inr ps \<Longrightarrow>
   check_all int_of (map (Response 200) hss) self =
     (map Inr (spec_decisions self ps), spec_state self ps)"
proof (induction hss arbitrary: ps self)
  case Nil
  then show ?case by simp
next
  case (Cons hs hss)
  then obtain p ps' where ps: "ps = p # ps'" by (cases ps) auto
  obtain ts sl ro where p: "p = (ts, sl, ro)" by (cases p) auto
  from Cons.prems ps p
  have h: "parse_headers int_of hs (0, DEFAULT_SLEEP_TIME, 0) = Inr (ts, sl, ro)"
    and t: "map (\<lambda>hs. parse_headers int_of hs (0, DEFAULT_SLEEP_TIME, 0)) hss = map Inr ps'"
    by simp_all
  show ?case
    using Cons.IH [OF t] by (simp add: ps p check_for_update_parsed [OF h])
qed

lemma parse_headers_append:
  "parse_headers f (xs @ ys) acc =
     (case parse_headers f xs acc of Inl e \<Rightarrow> Inl e | Inr acc' \<Rightarrow> parse_headers f ys acc')"
  by (induction f xs acc rule: parse_headers.induct) (auto simp: Let_def split: option.splits)

lemma parse_headers_no_sleep:
  "\<forall>(h, v) \<in> set hs. lower h \<noteq> ''sleep'' \<and> lower h \<noteq> ''sleepseconds'' \<Longrightarrow>
   parse_headers f hs (t, s, r) = Inr (t', s', r') \<Longrightarrow> s' = s"
  by (induction f hs "(t, s, r)" arbitrary: t r rule: parse_headers.induct)
     (auto simp: Let_def split: option.splits if_splits)


lemma parse_headers_last_sleep:
  assumes ok: "parse_headers f (before @ (name, v) # after) acc = Inr (t', s', r')"
    and nm: "lower name = ''sleep'' \<or> lower name = ''sleepseconds''"
    and later: "\<forall>(h, v) \<in> set after. lower h \<noteq> ''sleep'' \<and> lower h \<noteq> ''sleepseconds''"
  shows "\<exists>n. f v = Some n \<and> s' = (if lower name = ''sleep'' then n * 60 else n)"
proof -
  from ok obtain t s r where b: "parse_headers f before acc = Inr (t, s, r)"
    and rest: "parse_headers f ((name, v) # after) (t, s, r) = Inr (t', s', r')"
    by (auto simp: parse_headers_append split: sum.splits)
  from rest nm obtain n where n: "f v = Some n"
    by (auto simp: Let_def split: option.splits)
  from rest nm n
  have "parse_headers f after (t, if lower name = ''sleep'' then n * 60 else n, r) = Inr (t', s', r')"
    by (auto simp: Let_def split: if_splits)
  from parse_headers_no_sleep [OF later this] n show ?thesis by blast
qed

text \<open>
  C1. On successfully parsed responses \<open>check_for_update\<close> reports an update iff the
  parsed timestamp differs from the stored one (0 at first), replaces the stored
  timestamp, sleep time and rotation by the parsed values exactly then, leaves them
  unchanged otherwise, and returns the parsed sleep time and rotation in both cases.
  This holds for one response on any stored state and, with it, for every sequence of
  responses.
\<close>

theorem check_for_update_decision:
  "(parse_headers int_of hs (0, DEFAULT_SLEEP_TIME, 0) = Inr (ts, sl, ro) \<longrightarrow>
      check_for_update int_of (Response 200 hs) self =
        (Inr (ts \<noteq> timestamp self, sl, ro),
         if ts \<noteq> timestamp self then \<lparr>timestamp = ts, sleep_time = sl, rotation = ro\<rparr>
         else self)) \<and>
   (map (\<lambda>hs. parse_headers int_of hs (0, DEFAULT_SLEEP_TIME, 0)) hss = map Inr ps \<longrightarrow>
      check_all int_of (map (Response 200) hss) self =
        (map Inr (spec_decisions self ps), spec_state self ps)) \<and>
   timestamp init_client = 0"
  by (simp add: check_for_update_parsed check_all_parsed init_client_def)

theorem check_for_update_decision_witness:
  "check_all dec_int
     [Response 200 [(''Timestamp'', ''17''), (''Sleep'', ''5'')],
      Response 200 [(''SleepSeconds'', ''30''), (''timestamp'', ''17'')],
      Response 200 [(''TIMESTAMP'', ''18''), (''Rotate'', ''2'')]]
     init_client =
   ([Inr (True, 300, 0), Inr (False, 30, 0), Inr (True, 120, 2)],
    \<lparr>timestamp = 18, sleep_time = 120, rotation = 2\<rparr>)"
proof -
  let ?hss = "[[(''Timestamp'', ''17''), (''Sleep'', ''5'')],
      [(''SleepSeconds'', ''30''), (''timestamp'', ''17'')],
      [(''TIMESTAMP'', ''18''), (''Rotate'', ''2'')]]"
  let ?ps = "[(17, 300, 0), (17, 30, 0), (18, 120, 2)] :: (int \<times> int \<times> int) list"
  have h: "map (\<lambda>hs. parse_headers dec_int hs (0, DEFAULT_SLEEP_TIME, 0)) ?hss = map Inr ?ps"
    by code_simp
  from check_for_update_decision [where int_of = dec_int and hss = ?hss and ps = ?ps and self = init_client] h
  have "check_all dec_int (map (Response 200) ?hss) init_client =
    (map Inr (spec_decisions init_client ?ps), spec_state init_client ?ps)"
    by blast
  then show ?thesis by (simp add: init_client_def)
qed

text \<open>
  C5. A reply with a status other than 200, or a transport failure, makes
  \<open>check_for_update\<close> return \<open>(False, 120, 0)\<close> and leaves the stored fields as they
  were, so that the next check behaves as if the failed one had not happened.
\<close>

theorem check_for_update_failure:
  assumes "r = RequestException \<or> (\<exists>status hs. r = Response status hs \<and> status \<noteq> 200)"
  shows "check_for_update int_of r self = (Inr (False, 120, 0), self) \<and>
     check_for_update int_of r' (snd (check_for_update int_of r self)) =
       check_for_update int_of r' self"
proof -
  from assms have "check_for_update int_of r self = (Inr (False, 120, 0), self)"
    by (auto simp: check_for_update_def DEFAULT_SLEEP_TIME_def)
  then show ?thesis by simp
qed

theorem check_for_update_failure_witness:
  "check_for_update dec_int (Response 503 [(''Timestamp'', ''99'')])
     \<lparr>timestamp = 17, sleep_time = 300, rotation = 1\<rparr> =
     (Inr (False, 120, 0), \<lparr>timestamp = 17, sleep_time = 300, rotation = 1\<rparr>) \<and>
   check_for_update dec_int RequestException \<lparr>timestamp = 17, sleep_time = 300, rotation = 1\<rparr> =
     (Inr (False, 120, 0), \<lparr>timestamp = 17, sleep_time = 300, rotation = 1\<rparr>) \<and>
   fst (check_for_update dec_int (Response 200 [(''Timestamp'', ''17'')])
     (snd (check_for_update dec_int RequestException
        \<lparr>timestamp = 17, sleep_time = 300, rotation = 1\<rparr>))) = Inr (False, 120, 0)"
proof -
  let ?st = "\<lparr>timestamp = 17, sleep_time = 300, rotation = 1\<rparr>"
  have a: "Response 503 [(''Timestamp'', ''99'')] = RequestException \<or>
    (\<exists>status hs. Response 503 [(''Timestamp'', ''99'')] = Response status hs \<and> status \<noteq> 200)"
    by simp
  have b: "RequestException = RequestException \<or>
    (\<exists>status hs. RequestException = Response status hs \<and> status \<noteq> 200)"
    by simp
  have c: "check_for_update dec_int (Response 200 [(''Timestamp'', ''17'')]) ?st =
    (Inr (False, 120, 0), ?st)"
    by code_simp
  from check_for_update_failure [OF a, of dec_int ?st]
    check_for_update_failure [OF b, of dec_int ?st "Response 200 [(''Timestamp'', ''17'')]"] c
  show ?thesis by simp
qed

text \<open>
  C9. In a parsed response the last \<open>sleep\<close> or \<open>sleepseconds\<close> header in iteration
  order decides the returned sleep time: a \<open>sleep\<close> header gives its integer times 60,
  a \<open>sleepseconds\<close> header its integer. So \<open>sleepseconds\<close> overrides \<open>sleep\<close> exactly
  when it comes later.
\<close>

theorem check_for_update_sleep:
  assumes "check_for_update int_of (Response 200 (before @ (name, v) # after)) self =
      (Inr (needs_update, sleep, rot), self')"
    and "lower name = ''sleep'' \<or> lower name = ''sleepseconds''"
    and "\<forall>(h, v') \<in> set after. lower h \<noteq> ''sleep'' \<and> lower h \<noteq> ''sleepseconds''"
  shows "\<exists>n. int_of v = Some n \<and> sleep = (if lower name = ''sleep'' then n * 60 else n)"
proof -
  from assms(1) obtain ts where
    "parse_headers int_of (before @ (name, v) # after) (0, DEFAULT_SLEEP_TIME, 0) = Inr (ts, sleep, rot)"
    by (auto simp: check_for_update_def split: sum.splits if_splits)
  from parse_headers_last_sleep [OF this assms(2,3)] show ?thesis .
qed

theorem check_for_update_sleep_witness:
  "fst (check_for_update dec_int
      (Response 200 [(''Sleep'', ''5''), (''SleepSeconds'', ''45''), (''Rotate'', ''1'')]) init_client) =
     Inr (False, 45, 1) \<and>
   fst (check_for_update dec_int
      (Response 200 [(''SleepSeconds'', ''45''), (''Sleep'', ''5''), (''Rotate'', ''1'')]) init_client) =
     Inr (False, 300, 1)"
proof -
  have a: "check_for_update dec_int
      (Response 200 ([(''Sleep'', ''5'')] @ (''SleepSeconds'', ''45'') # [(''Rotate'', ''1'')])) init_client =
      (Inr (False, 45, 1), init_client)"
    by code_simp
  have b: "check_for_update dec_int
      (Response 200 ([(''SleepSeconds'', ''45'')] @ (''Sleep'', ''5'') # [(''Rotate'', ''1'')])) init_client =
      (Inr (False, 300, 1), init_client)"
    by code_simp
  have n1: "lower ''SleepSeconds'' = ''sleep'' \<or> lower ''SleepSeconds'' = ''sleepseconds''"
    by code_simp
  have n2: "lower ''Sleep'' = ''sleep'' \<or> lower ''Sleep'' = ''sleepseconds''"
    by code_simp
  have l: "\<forall>(h, v') \<in> set [(''Rotate'', ''1'')]. lower h \<noteq> ''sleep'' \<and> lower h \<noteq> ''sleepseconds''"
    by code_simp
  from check_for_update_sleep [OF a n1 l] check_for_update_sleep [OF b n2 l] a b
  show ?thesis by simp
qed



section \<open>The run-length decoders: the decoded canvas\<close>

lemma decode_rle_z1_image: "decode_rle_z1 data = Some (rle_image (z1_tokens data))"
  by (simp add: decode_rle_z1_def rle_image_def z1_loop_runs z1_tokens_def Let_def split: prod.splits)

lemma decode_rle_z2_image: "decode_rle_z2 data = Some (rle_image (z2_tokens data))"
  by (simp add: decode_rle_z2_def rle_image_def z2_loop_runs z2_tokens_def Let_def split: prod.splits)

lemma decode_rle_z3_image: "decode_rle_z3 data = Some (rle_image (z3_tokens data))"
  by (simp add: decode_rle_z3_def rle_image_def z3_loop_runs z3_tokens_def Let_def split: prod.splits)

lemma rle_image_size:
  "img_width (rle_image ts) = 800 \<and> img_height (rle_image ts) = 480"
  by (simp add: rle_image_def Image_new_def convert_1_def DISPLAY_WIDTH_def DISPLAY_HEIGHT_def
      Let_def split: prod.splits)

lemma rle_image_px:
  assumes "i < 800" "j < 480"
  shows "img_px (rle_image ts) (i, j) =
     (if j * 800 + i < run_total ts then run_cells ts ! (j * 800 + i) else 255)"
proof -
  obtain px x y where pr: "paint_runs ts (\<lambda>_. COLOR_WHITE, 0, 0) = (px, x, y)"
    by (cases "paint_runs ts (\<lambda>_. COLOR_WHITE, 0, 0)") auto
  have ij: "i < DISPLAY_WIDTH" "j < DISPLAY_HEIGHT"
    using assms by (simp_all add: DISPLAY_WIDTH_def DISPLAY_HEIGHT_def)
  have "px (i, j) =
     (if 0 * DISPLAY_WIDTH + 0 \<le> j * DISPLAY_WIDTH + i \<and>
         j * DISPLAY_WIDTH + i < 0 * DISPLAY_WIDTH + 0 + length (run_cells ts)
      then run_cells ts ! (j * DISPLAY_WIDTH + i - (0 * DISPLAY_WIDTH + 0))
      else COLOR_WHITE)"
    by (rule paint_runs_pixels [OF ij _ pr]) (simp add: DISPLAY_WIDTH_def)
  then have px: "px (i, j) =
     (if j * 800 + i < run_total ts then run_cells ts ! (j * 800 + i) else 255)"
    by (simp add: length_run_cells DISPLAY_WIDTH_def COLOR_WHITE_def)
  have v: "px (i, j) = 0 \<or> px (i, j) = 255"
  proof (cases "j * 800 + i < run_total ts")
    case True
    then have "run_cells ts ! (j * 800 + i) \<in> set (run_cells ts)"
      by (simp add: length_run_cells)
    with True px show ?thesis by (auto dest: run_cells_values)
  next
    case False
    with px show ?thesis by simp
  qed
  have "img_px (rle_image ts) (i, j) = (if px (i, j) > 128 then 255 else 0)"
    by (simp add: rle_image_def Image_new_def convert_1_def pr)
  with v px show ?thesis by auto
qed

lemma rle_image_cursor:
  assumes "800 * 480 \<le> run_total ts"
  shows "\<exists>px. paint_runs ts (\<lambda>_. 255, 0, 0) = (px, 0, 480)"
proof -
  obtain px x y where pr: "paint_runs ts (\<lambda>_. 255, 0, 0) = (px, x, y)"
    by (cases "paint_runs ts (\<lambda>_. 255, 0, 0)") auto
  have "if DISPLAY_WIDTH * DISPLAY_HEIGHT \<le> 0 * DISPLAY_WIDTH + 0 + length (run_cells ts)
    then x = 0 \<and> y = DISPLAY_HEIGHT
    else x < DISPLAY_WIDTH \<and> y < DISPLAY_HEIGHT \<and>
         y * DISPLAY_WIDTH + x = 0 * DISPLAY_WIDTH + 0 + length (run_cells ts)"
    by (rule paint_runs_cursor [OF _ _ pr]) (simp_all add: DISPLAY_WIDTH_def DISPLAY_HEIGHT_def)
  with assms pr show ?thesis
    by (simp add: length_run_cells DISPLAY_WIDTH_def DISPLAY_HEIGHT_def)
qed

text \<open>
  C3. \<open>decode_rle_z1\<close> always returns an 800 by 480 image whose cell at raster index
  \<open>j * 800 + i\<close> is the cell the token stream describes there, and white past the
  stream's end. So when the run lengths sum to fewer than \<open>800 * 480\<close> cells, every cell
  the cursor has not reached is white; when they sum to more, every canvas cell holds
  the run value of its own raster index (a run that crosses the end is cut there and
  nothing wraps to the start), and the loop ends with the cursor at \<open>(0, 480)\<close>, just
  after painting \<open>(799, 479)\<close>. The decoder is a total function: it terminates.
\<close>

theorem decode_rle_z1_canvas:
  "\<exists>img. decode_rle_z1 data = Some img \<and> img_width img = 800 \<and> img_height img = 480 \<and>
     (\<forall>i<800. \<forall>j<480. img_px img (i, j) =
        (if j * 800 + i < run_total (z1_tokens data) then run_cells (z1_tokens data) ! (j * 800 + i)
         else 255)) \<and>
     (run_total (z1_tokens data) < 800 * 480 \<longrightarrow>
        (\<forall>i<800. \<forall>j<480. run_total (z1_tokens data) \<le> j * 800 + i \<longrightarrow> img_px img (i, j) = 255)) \<and>
     (800 * 480 < run_total (z1_tokens data) \<longrightarrow>
        (\<forall>i<800. \<forall>j<480. img_px img (i, j) = run_cells (z1_tokens data) ! (j * 800 + i)) \<and>
        (\<exists>px. z1_loop data 2 (\<lambda>_. 255, 0, 0) = Some (px, 0, 480)))"
proof -
  let ?ts = "z1_tokens data"
  have b: "j * 800 + i < 800 * 480" if "i < 800" "j < 480" for i j :: nat
    using raster_bound [OF that] by simp
  have "\<exists>px. z1_loop data 2 (\<lambda>_. 255, 0, 0) = Some (px, 0, 480)"
    if "800 * 480 < run_total ?ts"
    using rle_image_cursor [of ?ts] that by (simp add: z1_loop_runs z1_tokens_def)
  moreover have "img_px (rle_image ?ts) (i, j) = run_cells ?ts ! (j * 800 + i)"
    if "800 * 480 < run_total ?ts" "i < 800" "j < 480" for i j
    using rle_image_px [OF that(2,3), of ?ts] b [OF that(2,3)] that(1) by simp
  ultimately show ?thesis
    by (intro exI [of _ "rle_image ?ts"]) (simp add: decode_rle_z1_image rle_image_size rle_image_px)
qed

lemma z1_pairs_replicate: "z1_pairs (concat (replicate n [a, b])) = replicate n (unat a, unat b)"
  by (induction n) auto

lemma run_cells_replicate:
  "run_cells (replicate m (c, n)) = replicate (m * n) (if c = 0 then 255 else 0)"
  by (induction m) (auto simp: run_cells_def replicate_add)

lemma z1_long_tokens: "z1_tokens z1_long = (0, 255) # replicate 1506 (1, 255)"
  by (simp add: z1_tokens_def z1_long_def z1_pairs_replicate)

lemma z1_long_total: "run_total (z1_tokens z1_long) = 384285"
  by (simp add: z1_long_tokens run_total_def sum_list_replicate)

lemma z1_long_cells:
  "run_cells (z1_tokens z1_long) = replicate 255 255 @ replicate 384030 0"
  by (simp add: z1_long_tokens run_cells_Cons get_color_from_index_eq run_cells_replicate)

theorem decode_rle_z1_canvas_witness:
  "getpixel (decode_rle_z1 z1_short) 2 0 = Some 0 \<and>
   getpixel (decode_rle_z1 z1_short) 3 0 = Some 255 \<and>
   getpixel (decode_rle_z1 z1_short) 799 479 = Some 255 \<and>
   getpixel (decode_rle_z1 z1_long) 0 0 = Some 255 \<and>
   getpixel (decode_rle_z1 z1_long) 799 479 = Some 0 \<and>
   (\<exists>px. z1_loop z1_long 2 (\<lambda>_. 255, 0, 0) = Some (px, 0, 480))"
proof -
  have ts: "z1_tokens z1_short = [(1, 3)]"
    by (simp add: z1_tokens_def z1_short_def)
  have short: "run_total (z1_tokens z1_short) = 3" "run_cells (z1_tokens z1_short) = [0, 0, 0]"
    by (simp_all add: ts run_total_def run_cells_def numeral_3_eq_3)
  from decode_rle_z1_canvas [of z1_short] obtain a where
    a: "decode_rle_z1 z1_short = Some a" "img_width a = 800" "img_height a = 480"
      "\<forall>i<800. \<forall>j<480. img_px a (i, j) =
        (if j * 800 + i < run_total (z1_tokens z1_short)
         then run_cells (z1_tokens z1_short) ! (j * 800 + i) else 255)"
      "run_total (z1_tokens z1_short) < 800 * 480 \<longrightarrow>
        (\<forall>i<800. \<forall>j<480. run_total (z1_tokens z1_short) \<le> j * 800 + i \<longrightarrow> img_px a (i, j) = 255)"
    by blast
  from decode_rle_z1_canvas [of z1_long] obtain b where
    b: "decode_rle_z1 z1_long = Some b" "img_width b = 800" "img_height b = 480"
      "800 * 480 < run_total (z1_tokens z1_long) \<longrightarrow>
        (\<forall>i<800. \<forall>j<480. img_px b (i, j) = run_cells (z1_tokens z1_long) ! (j * 800 + i)) \<and>
        (\<exists>px. z1_loop z1_long 2 (\<lambda>_. 255, 0, 0) = Some (px, 0, 480))"
    by blast
  have a1: "img_px a (2, 0) = 0"
    using a(4) [rule_format, of 2 0] by (simp add: short)
  have a2: "img_px a (3, 0) = 255" "img_px a (799, 479) = 255"
    using a(5) [rule_format, of 3 0] a(5) [rule_format, of 799 479] by (simp_all add: short)
  from b(4) have b': "\<forall>i<800. \<forall>j<480. img_px b (i, j) = run_cells (z1_tokens z1_long) ! (j * 800 + i)"
    and cur: "\<exists>px. z1_loop z1_long 2 (\<lambda>_. 255, 0, 0) = Some (px, 0, 480)"
    by (simp_all add: z1_long_total)
  have b1: "img_px b (0, 0) = 255"
    using b' [rule_format, of 0 0] by (simp add: z1_long_cells nth_append)
  have b2: "img_px b (799, 479) = 0"
    using b' [rule_format, of 799 479] by (simp add: z1_long_cells nth_append)
  show ?thesis
    using a(1-3) b(1-3) a1 a2 b1 b2 cur by (simp add: getpixel_def)
qed

lemma z2_example_tokens: "z2_tokens z2_example = [(1, 5), (3, 2)]"
  by (simp add: z2_tokens_def z2_example_def)

lemma z2_example_cells:
  "run_total (z2_tokens z2_example) = 7 \<and> run_cells (z2_tokens z2_example) = replicate 7 0"
  by (simp add: z2_example_tokens run_total_def run_cells_def flip: replicate_add)

text \<open>
  C2, as stated, fails: the first token \<open>0b01_000101\<close> has colour index 1, which
  \<open>_get_color_from_index\<close> maps to black, so the cell at \<open>(0, 0)\<close> is black and not
  white.
\<close>

theorem decode_rle_z2_example_first_black:
  "getpixel (decode_rle_z2 z2_example) 0 0 = Some COLOR_BLACK"
  using rle_image_px [of 0 0 "z2_tokens z2_example"]
  by (simp add: decode_rle_z2_image getpixel_def rle_image_size z2_example_cells COLOR_BLACK_def)

text \<open>
  C2, amended. Decoding the stream \<open>[0x31, 0x5A, 0b01_000101, 0b11_000010]\<close> with
  \<open>decode_rle_z2\<close> paints 5 black cells (colour index 1) followed by 2 black cells
  (colour index 3) in raster order from \<open>(0, 0)\<close>: the cells \<open>(0, 0)\<close> to \<open>(6, 0)\<close> are
  black and every other cell of the 800 by 480 canvas is white.
\<close>

theorem decode_rle_z2_example:
  "\<exists>img. decode_rle_z2 z2_example = Some img \<and> img_width img = 800 \<and> img_height img = 480 \<and>
     (\<forall>i<800. \<forall>j<480. img_px img (i, j) = (if j = 0 \<and> i < 7 then COLOR_BLACK else COLOR_WHITE))"
proof -
  have "img_px (rle_image (z2_tokens z2_example)) (i, j) =
      (if j = 0 \<and> i < 7 then COLOR_BLACK else COLOR_WHITE)"
    if "i < 800" "j < 480" for i j
    using rle_image_px [OF that, of "z2_tokens z2_example"] that
    by (auto simp: z2_example_cells COLOR_BLACK_def COLOR_WHITE_def)
  then show ?thesis
    by (intro exI [of _ "rle_image (z2_tokens z2_example)"])
       (simp add: decode_rle_z2_image rle_image_size)
qed

theorem decode_rle_z2_example_witness:
  "getpixel (decode_rle_z2 z2_example) 4 0 = Some 0 \<and>
   getpixel (decode_rle_z2 z2_example) 6 0 = Some 0 \<and>
   getpixel (decode_rle_z2 z2_example) 7 0 = Some 255 \<and>
   getpixel (decode_rle_z2 z2_example) 0 1 = Some 255 \<and>
   getpixel (decode_rle_z2 z2_example) 799 479 = Some 255"
proof -
  from decode_rle_z2_example obtain a where
    a: "decode_rle_z2 z2_example = Some a" "img_width a = 800" "img_height a = 480"
      "\<forall>i<800. \<forall>j<480. img_px a (i, j) = (if j = 0 \<and> i < 7 then COLOR_BLACK else COLOR_WHITE)"
    by blast
  show ?thesis
    using a(1-3) a(4) [rule_format, of 4 0] a(4) [rule_format, of 6 0] a(4) [rule_format, of 7 0]
      a(4) [rule_format, of 0 1] a(4) [rule_format, of 799 479]
    by (simp add: getpixel_def COLOR_BLACK_def COLOR_WHITE_def)
qed

section \<open>The BMP decoder: rows and cells\<close>
























section \<open>The format dispatch\<close>


lemma le16_bytes:
  fixes b0 b1 c0 c1 :: byte
  shows "unat b0 + 256 * unat b1 = unat c0 + 256 * unat c1 \<longleftrightarrow> b0 = c0 \<and> b1 = c1"
proof
  assume e: "unat b0 + 256 * unat b1 = unat c0 + 256 * unat c1"
  have "unat b1 * 256 + unat b0 = unat c1 * 256 + unat c0" using e by simp
  from raster_unique [OF unat_byte_less unat_byte_less this]
  show "b0 = c0 \<and> b1 = c1" by (simp add: word_unat_eq_iff)
qed simp

lemma le16_cons: "le16 (b0 # b1 # rest) 0 = unat b0 + 256 * unat b1"
  by (simp add: le16_def)

lemma magic_bmp: "unat (b0 :: byte) + 256 * unat (b1 :: byte) = 0x4D42 \<longleftrightarrow> b0 = 0x42 \<and> b1 = 0x4D"
  using le16_bytes [of b0 b1 "0x42" "0x4D"] by simp

lemma magic_z1: "unat (b0 :: byte) + 256 * unat (b1 :: byte) = 0x315A \<longleftrightarrow> b0 = 0x5A \<and> b1 = 0x31"
  using le16_bytes [of b0 b1 "0x5A" "0x31"] by simp

lemma magic_z2: "unat (b0 :: byte) + 256 * unat (b1 :: byte) = 0x325A \<longleftrightarrow> b0 = 0x5A \<and> b1 = 0x32"
  using le16_bytes [of b0 b1 "0x5A" "0x32"] by simp

lemma magic_z3: "unat (b0 :: byte) + 256 * unat (b1 :: byte) = 0x335A \<longleftrightarrow> b0 = 0x5A \<and> b1 = 0x33"
  using le16_bytes [of b0 b1 "0x5A" "0x33"] by simp

text \<open>
  C7. The decoder is chosen from the first two bytes alone, read as a little-endian
  number: a payload of fewer than 2 bytes fails; the bytes \<open>42 4D\<close> (\<open>0x4D42\<close>),
  \<open>5A 31\<close> (\<open>0x315A\<close>), \<open>5A 32\<close> (\<open>0x325A\<close>) and \<open>5A 33\<close> (\<open>0x335A\<close>) give the result of
  the BMP, Z1, Z2 and Z3 decoder on the payload; any other pair fails as an unknown
  format, with no image and no decoder tried.
\<close>

theorem decode_payload_dispatch:
  "(length data < 2 \<longrightarrow> decode_payload data = Inl ResponseTooShort) \<and>
   (\<forall>b0 b1 rest. data = b0 # b1 # rest \<longrightarrow>
      decode_payload data =
        (if b0 = 0x42 \<and> b1 = 0x4D then decoded (decode_bmp data)
         else if b0 = 0x5A \<and> b1 = 0x31 then decoded (decode_rle_z1 data)
         else if b0 = 0x5A \<and> b1 = 0x32 then decoded (decode_rle_z2 data)
         else if b0 = 0x5A \<and> b1 = 0x33 then decoded (decode_rle_z3 data)
         else Inl (UnknownImageFormat (unat b0 + 256 * unat b1))))"
  by (auto simp: decode_payload_def le16_cons magic_bmp magic_z1 magic_z2 magic_z3 Let_def)

theorem decode_payload_dispatch_witness:
  "decode_payload [0x42] = Inl ResponseTooShort \<and>
   decode_payload [0x5A, 0x32, 0x45, 0xC2] = decoded (decode_rle_z2 [0x5A, 0x32, 0x45, 0xC2]) \<and>
   decode_payload [0x31, 0x5A, 0x45, 0xC2] = Inl (UnknownImageFormat 0x5A31) \<and>
   decode_payload bmp_top_down = decoded (decode_bmp bmp_top_down)"
proof -
  have a: "length [0x42 :: byte] < 2" by simp
  have b: "bmp_top_down = 0x42 # 0x4D # tl (tl bmp_top_down)"
    by (simp add: bmp_top_down_def bmp_example_def)
  from decode_payload_dispatch [of "[0x42]"] a
    decode_payload_dispatch [of "[0x5A, 0x32, 0x45, 0xC2]"]
    decode_payload_dispatch [of "[0x31, 0x5A, 0x45, 0xC2]"]
    decode_payload_dispatch [of bmp_top_down, THEN conjunct2, rule_format, OF b]
  show ?thesis by simp
qed

end
